theory Spec2Isabelle
  imports Main
begin

section \<open>Data model of the WebACL authorizer\<close>

text \<open>
  RDF terms are the identifiers the N3 store compares: the authorizer only ever asks
  for exact matches, so a term is its identifier string. A quad is a statement with its
  graph; every query of the authorizer leaves the graph open.
\<close>

type_synonym rdf_term = string

datatype quad = Quad (subject: rdf_term) (predicate: rdf_term) (object: rdf_term) (graph: rdf_term)

text \<open>
  The errors the authorizer raises or inspects, and one constructor for every other
  failure a collaborator may raise.
\<close>

datatype error =
    NotFoundHttpError
  | ForbiddenHttpError
  | UnauthorizedHttpError
  | OtherError string

datatype ResourceIdentifier = ResourceIdentifier (path: string)

text \<open>\<open>webID\<close> is an optional string: \<open>typeof agent.webID === 'string'\<close> is \<open>webID agent \<noteq> None\<close>.\<close>

datatype Credentials = Credentials (webID: "string option")

text \<open>
  The keys of a \<open>PermissionSet\<close> form a closed enumeration; \<open>handle\<close> passes the
  literal \<open>'control'\<close> as well. A permission set is the object's entries in the order
  \<open>Object.keys\<close> lists them.
\<close>

datatype mode = Read | Append | Write | Control

type_synonym PermissionSet = "(mode \<times> bool) list"

text \<open>
  A representation carries a data stream of quads. Importing the stream into a store
  either ends, having delivered its quads, or emits an error.
\<close>

datatype Representation = Representation (data: "error + quad list")

record AuthorizerArgs =
  "identifier" :: ResourceIdentifier
  credentials :: Credentials
  permissions :: PermissionSet

subsection \<open>The vocabulary\<close>

text \<open>
  Modelled from the spec: the constant tables \<open>ACL\<close> and \<open>FOAF\<close> of
  \<open>util/UriConstants\<close> and the content type \<open>INTERNAL_QUADS\<close> of
  \<open>util/ContentTypes\<close> are not part of the sources at hand. The spec names the
  statements \<open>accessTo\<close>, \<open>default\<close>, \<open>mode\<close>, \<open>agentClass\<close>, \<open>agent\<close>, the classes
  \<open>Agent\<close> and \<open>AuthenticatedAgent\<close> and the four modes; each becomes a term of its
  vocabulary.
\<close>

definition ACL :: "string \<Rightarrow> rdf_term" where
  "ACL name = ''acl:'' @ name"

definition FOAF :: "string \<Rightarrow> rdf_term" where
  "FOAF name = ''foaf:'' @ name"

definition INTERNAL_QUADS :: string where
  "INTERNAL_QUADS = ''internal/quads''"

text \<open>
  \<open>ACL[this.capitalize(mode)]\<close>: \<open>capitalize\<close> puts the first letter of the key in
  upper case and the rest in lower case, which on the four keys gives the name of the
  mode's entry in the \<open>ACL\<close> table.
\<close>

fun capitalize :: "mode \<Rightarrow> string" where
  "capitalize Read = ''Read''"
| "capitalize Append = ''Append''"
| "capitalize Write = ''Write''"
| "capitalize Control = ''Control''"

section \<open>The N3 store\<close>

text \<open>
  A store holds each quad once. \<open>getQuads\<close> takes a pattern in which \<open>null\<close>
  (\<open>None\<close>) matches every term.
\<close>

type_synonym store = "quad list"

definition addQuad :: "quad \<Rightarrow> store \<Rightarrow> store" where
  "addQuad q s = (if q \<in> set s then s else s @ [q])"

definition addQuads :: "quad list \<Rightarrow> store \<Rightarrow> store" where
  "addQuads qs s = fold addQuad qs s"

definition matches :: "rdf_term option \<Rightarrow> rdf_term \<Rightarrow> bool" where
  "matches pat t = (case pat of None \<Rightarrow> True | Some p \<Rightarrow> t = p)"

definition getQuads ::
  "store \<Rightarrow> rdf_term option \<Rightarrow> rdf_term option \<Rightarrow> rdf_term option \<Rightarrow> rdf_term option \<Rightarrow> quad list" where
  "getQuads s sub pred obj gr =
     filter (\<lambda>q. matches sub (subject q) \<and> matches pred (predicate q)
                 \<and> matches obj (object q) \<and> matches gr (graph q)) s"

definition countQuads ::
  "store \<Rightarrow> rdf_term option \<Rightarrow> rdf_term option \<Rightarrow> rdf_term option \<Rightarrow> rdf_term option \<Rightarrow> nat" where
  "countQuads s sub pred obj gr = length (getQuads s sub pred obj gr)"

section \<open>The authorizer\<close>

subsection \<open>filterData\<close>

text \<open>
  The stream is imported into a fresh store; a stream error rejects the promise. The
  subjects of the statements with the given predicate and object are collected, and
  every statement of each such subject is added to a second store, which is returned.
\<close>

definition filterData :: "Representation \<Rightarrow> rdf_term \<Rightarrow> rdf_term \<Rightarrow> error + store" where
  "filterData rep pred obj =
     (case data rep of
        Inl e \<Rightarrow> Inl e
      | Inr qs \<Rightarrow>
          (let store = addQuads qs [];
               auths = map subject (getQuads store None (Some pred) (Some obj) None);
               newStore = fold (\<lambda>subject newStore.
                                  addQuads (getQuads store (Some subject) None None None) newStore)
                               auths []
           in Inr newStore))"

subsection \<open>hasAccess and checkPermission\<close>

definition hasAccess :: "Credentials \<Rightarrow> rdf_term \<Rightarrow> store \<Rightarrow> bool" where
  "hasAccess agent auth store =
     (if countQuads store (Some auth) (Some (ACL ''agentClass'')) (Some (FOAF ''Agent'')) None > 0 then True
      else case webID agent of
             None \<Rightarrow> False
           | Some w \<Rightarrow>
               if countQuads store (Some auth) (Some (ACL ''agentClass''))
                             (Some (FOAF ''AuthenticatedAgent'')) None > 0
               then True
               else countQuads store (Some auth) (Some (ACL ''agent'')) (Some w) None > 0)"

definition checkPermission :: "Credentials \<Rightarrow> store \<Rightarrow> mode \<Rightarrow> error + unit" where
  "checkPermission agent store mode =
     (let modeString = ACL (capitalize mode);
          auths = map subject (getQuads store None (Some (ACL ''mode'')) (Some modeString) None)
      in if \<not> list_ex (\<lambda>term. hasAccess agent term store) auths
         then (let isLoggedIn = (webID agent \<noteq> None)
               in if isLoggedIn then Inl ForbiddenHttpError else Inl UnauthorizedHttpError)
         else Inr ())"

subsection \<open>Collaborators and the call log\<close>

text \<open>
  The ACL manager (\<open>getAcl\<close>, \<open>isAcl\<close>), the resource store
  (\<open>getRepresentation\<close>) and the path utility (\<open>getParentContainer\<close>) are
  collaborators: each is a parameter, and each call either returns or raises. The
  authorizer is verified for every choice of them; \<open>getParentContainer\<close> of
  \<open>util/PathUtil\<close>, whose source is not at hand, is a parameter like the others.
\<close>

record env =
  getAcl :: "ResourceIdentifier \<Rightarrow> error + ResourceIdentifier"
  isAcl :: "ResourceIdentifier \<Rightarrow> error + bool"
  getRepresentation :: "ResourceIdentifier \<Rightarrow> string \<Rightarrow> error + Representation"
  getParentContainer :: "ResourceIdentifier \<Rightarrow> error + ResourceIdentifier"

text \<open>
  The log records, in the order of execution, every call to a collaborator and every
  invocation of \<open>checkPermission\<close>.
\<close>

datatype event =
    Called_getAcl ResourceIdentifier
  | Called_getRepresentation ResourceIdentifier
  | Called_getParentContainer ResourceIdentifier
  | Called_isAcl ResourceIdentifier
  | Called_checkPermission mode

subsection \<open>getAclRecursive\<close>

text \<open>
  The \<open>try\<close> block of \<open>getAclRecursive\<close>. The two awaited calls raise inside the
  block, so the \<open>catch\<close> clause sees their errors. The promise of \<open>filterData\<close> is
  returned without being awaited: it settles the promise of \<open>getAclRecursive\<close>
  itself, and a rejection of it does not reach the \<open>catch\<close> clause.
\<close>

datatype 'a try_outcome = Caught error | Returned 'a

definition tryReadAcl ::
  "env \<Rightarrow> ResourceIdentifier \<Rightarrow> bool \<Rightarrow> event list \<Rightarrow> event list \<times> (error + store) try_outcome" where
  "tryReadAcl env ident recurse log =
     (case getAcl env ident of
        Inl e \<Rightarrow> (log @ [Called_getAcl ident], Caught e)
      | Inr acl \<Rightarrow>
          (case getRepresentation env acl INTERNAL_QUADS of
             Inl e \<Rightarrow> (log @ [Called_getAcl ident, Called_getRepresentation acl], Caught e)
           | Inr representation \<Rightarrow>
               (log @ [Called_getAcl ident, Called_getRepresentation acl],
                Returned (filterData representation (if recurse then ACL ''default'' else ACL ''accessTo'')
                            (path ident)))))"

text \<open>
  The walk may go on forever (nothing in \<open>getAclRecursive\<close> bounds it): \<open>None\<close> is
  the check that never settles.
\<close>

partial_function (option) getAclRecursive ::
  "env \<Rightarrow> ResourceIdentifier \<Rightarrow> bool \<Rightarrow> event list \<Rightarrow> (event list \<times> (error + store)) option" where
  "getAclRecursive env ident recurse log =
     (case tryReadAcl env ident recurse log of
        (log1, Returned result) \<Rightarrow> Some (log1, result)
      | (log1, Caught error) \<Rightarrow>
          if error = NotFoundHttpError
          then (case getParentContainer env ident of
                  Inl e \<Rightarrow> Some (log1 @ [Called_getParentContainer ident], Inl e)
                | Inr parent \<Rightarrow>
                    getAclRecursive env parent True (log1 @ [Called_getParentContainer ident]))
          else Some (log1, Inl error))"

declare getAclRecursive.simps [code]

subsection \<open>handle\<close>

text \<open>\<open>Array.prototype.forEach\<close> with a callback that may throw: the first throw ends the loop.\<close>

fun forEach ::
  "'a list \<Rightarrow> ('a \<Rightarrow> event list \<Rightarrow> event list \<times> (error + unit)) \<Rightarrow> event list
     \<Rightarrow> event list \<times> (error + unit)" where
  "forEach [] callback log = (log, Inr ())"
| "forEach (x # xs) callback log =
     (case callback x log of
        (log1, Inl e) \<Rightarrow> (log1, Inl e)
      | (log1, Inr _) \<Rightarrow> forEach xs callback log1)"

text \<open>\<open>Object.keys\<close> and property access on a permission set.\<close>

definition Object_keys :: "PermissionSet \<Rightarrow> mode list" where
  "Object_keys ps = map fst ps"

definition property :: "PermissionSet \<Rightarrow> mode \<Rightarrow> bool" where
  "property ps key = (map_of ps key = Some True)"

definition handle :: "env \<Rightarrow> AuthorizerArgs \<Rightarrow> event list \<Rightarrow> (event list \<times> (error + unit)) option" where
  "handle env input log =
     (case getAclRecursive env (identifier input) False log of
        None \<Rightarrow> None
      | Some (log1, Inl e) \<Rightarrow> Some (log1, Inl e)
      | Some (log1, Inr store) \<Rightarrow>
          (case isAcl env (identifier input) of
             Inl e \<Rightarrow> Some (log1 @ [Called_isAcl (identifier input)], Inl e)
           | Inr True \<Rightarrow>
               Some (log1 @ [Called_isAcl (identifier input), Called_checkPermission Control],
                     checkPermission (credentials input) store Control)
           | Inr False \<Rightarrow>
               Some (forEach (Object_keys (permissions input))
                       (\<lambda>key log2.
                          if property (permissions input) key
                          then (log2 @ [Called_checkPermission key],
                                checkPermission (credentials input) store key)
                          else (log2, Inr ()))
                       (log1 @ [Called_isAcl (identifier input)]))))"

section \<open>Notions used to state the properties\<close>

text \<open>
  The outcome of the two awaited calls of the \<open>try\<close> block at an identifier, and the
  calls they leave in the log.
\<close>

definition probe :: "env \<Rightarrow> ResourceIdentifier \<Rightarrow> error + Representation" where
  "probe env ident =
     (case getAcl env ident of
        Inl e \<Rightarrow> Inl e
      | Inr acl \<Rightarrow> getRepresentation env acl INTERNAL_QUADS)"

definition probeLog :: "env \<Rightarrow> ResourceIdentifier \<Rightarrow> event list" where
  "probeLog env ident =
     (case getAcl env ident of
        Inl e \<Rightarrow> [Called_getAcl ident]
      | Inr acl \<Rightarrow> [Called_getAcl ident, Called_getRepresentation acl])"

text \<open>
  \<open>climbs env ident ancestors\<close>: starting at \<open>ident\<close>, every identifier before the last
  of \<open>ident # ancestors\<close> has no ACL resource (the probe reports not-found) and the next
  one is its parent container.
\<close>

fun climbs :: "env \<Rightarrow> ResourceIdentifier \<Rightarrow> ResourceIdentifier list \<Rightarrow> bool" where
  "climbs env ident [] = True"
| "climbs env ident (p # ps) =
     (probe env ident = Inl NotFoundHttpError \<and> getParentContainer env ident = Inr p
      \<and> climbs env p ps)"

fun climbLog :: "env \<Rightarrow> ResourceIdentifier \<Rightarrow> ResourceIdentifier list \<Rightarrow> event list" where
  "climbLog env ident [] = []"
| "climbLog env ident (p # ps) =
     probeLog env ident @ [Called_getParentContainer ident] @ climbLog env p ps"

text \<open>The calls that belong to the resolution, and the invocations of \<open>checkPermission\<close>.\<close>

fun resolutionEvent :: "event \<Rightarrow> bool" where
  "resolutionEvent (Called_getAcl _) = True"
| "resolutionEvent (Called_getRepresentation _) = True"
| "resolutionEvent (Called_getParentContainer _) = True"
| "resolutionEvent _ = False"

fun checkEvent :: "event \<Rightarrow> bool" where
  "checkEvent (Called_checkPermission _) = True"
| "checkEvent _ = False"

text \<open>
  The modes marked requested, in key order, and of a list of modes those that are
  evaluated: all up to and including the first that is not granted.
\<close>

definition requestedModes :: "PermissionSet \<Rightarrow> mode list" where
  "requestedModes ps = filter (property ps) (Object_keys ps)"

definition granted :: "Credentials \<Rightarrow> store \<Rightarrow> mode \<Rightarrow> bool" where
  "granted agent store m = (checkPermission agent store m = Inr ())"

definition evaluatedModes :: "Credentials \<Rightarrow> store \<Rightarrow> mode list \<Rightarrow> mode list" where
  "evaluatedModes agent store ms =
     takeWhile (granted agent store) ms @ take 1 (dropWhile (granted agent store) ms)"

section \<open>An example deployment\<close>

text \<open>
  Modelled from the spec: the namespace of the spec's scenarios, with root \<open>/\<close>. The
  parent of an identifier other than the root is obtained by stripping its final path
  segment; the root has no parent, and asking for it fails.
\<close>

definition parentContainerOf :: "ResourceIdentifier \<Rightarrow> error + ResourceIdentifier" where
  "parentContainerOf ident =
     (if path ident = ''/'' \<or> path ident = [] then Inl (OtherError ''root has no parent'')
      else Inr (ResourceIdentifier
                  (rev (dropWhile (\<lambda>c. c \<noteq> CHR ''/'') (tl (rev (path ident)))))))"

text \<open>
  An ACL locator that appends \<open>.acl\<close>, and a storage holding the given documents and
  reporting not-found for every other identifier.
\<close>

definition example_env :: "(string \<times> Representation) list \<Rightarrow> env" where
  "example_env documents =
     \<lparr> getAcl = (\<lambda>ident. Inr (ResourceIdentifier (path ident @ ''.acl''))),
       isAcl = (\<lambda>ident. Inr (drop (length (path ident) - 4) (path ident) = ''.acl'')),
       getRepresentation = (\<lambda>ident type.
          case map_of documents (path ident) of
            None \<Rightarrow> Inl NotFoundHttpError
          | Some representation \<Rightarrow> Inr representation),
       getParentContainer = parentContainerOf \<rparr>"

text \<open>An ACL document with one authorization that grants \<open>Read\<close> to everyone by default on \<open>/a/\<close>.\<close>

definition public_read_acl :: "quad list" where
  "public_read_acl =
     [Quad ''#public'' (ACL ''default'') ''/a/'' [],
      Quad ''#public'' (ACL ''mode'') (ACL ''Read'') [],
      Quad ''#public'' (ACL ''agentClass'') (FOAF ''Agent'') []]"

text \<open>
  An ACL document for \<open>/a/b/c\<close> that grants \<open>Control\<close> to one agent directly, and carries
  a default authorization for everyone as well.
\<close>

definition alice_acl :: "quad list" where
  "alice_acl =
     [Quad ''#owner'' (ACL ''accessTo'') ''/a/b/c'' [],
      Quad ''#owner'' (ACL ''mode'') (ACL ''Control'') [],
      Quad ''#owner'' (ACL ''agent'') ''https://example.org/alice'' [],
      Quad ''#all'' (ACL ''default'') ''/a/b/c'' [],
      Quad ''#all'' (ACL ''mode'') (ACL ''Read'') [],
      Quad ''#all'' (ACL ''agentClass'') (FOAF ''Agent'') []]"

text \<open>
  The example deployment with the document of \<open>/a/\<close> in place, and a storage that fails
  with an error other than not-found when asked for the ACL resource of \<open>/a/b/\<close>.
\<close>

definition failing_env :: env where
  "failing_env =
     (example_env [(''/a/.acl'', Representation (Inr public_read_acl))])
       \<lparr> getRepresentation := (\<lambda>ident type.
            if path ident = ''/a/b/.acl'' then Inl (OtherError ''storage unavailable'')
            else getRepresentation
                   (example_env [(''/a/.acl'', Representation (Inr public_read_acl))]) ident type) \<rparr>"

section \<open>Properties of the store\<close>

lemma set_addQuad: "set (addQuad q s) = insert q (set s)"
  by (auto simp: addQuad_def)

lemma set_addQuads: "set (addQuads qs s) = set qs \<union> set s"
  unfolding addQuads_def by (induction qs arbitrary: s) (auto simp: set_addQuad)

lemma distinct_addQuad: "distinct s \<Longrightarrow> distinct (addQuad q s)"
  by (auto simp: addQuad_def)

lemma distinct_addQuads: "distinct s \<Longrightarrow> distinct (addQuads qs s)"
  unfolding addQuads_def by (induction qs arbitrary: s) (auto simp: distinct_addQuad)

lemma matches_simps [simp]: "matches None t" "matches (Some p) t \<longleftrightarrow> t = p"
  by (simp_all add: matches_def)

lemma set_getQuads:
  "set (getQuads s sub pred obj gr) =
     {q \<in> set s. matches sub (subject q) \<and> matches pred (predicate q)
                 \<and> matches obj (object q) \<and> matches gr (graph q)}"
  by (auto simp: getQuads_def)

lemma countQuads_pos:
  "0 < countQuads s sub pred obj gr \<longleftrightarrow>
     (\<exists>q \<in> set s. matches sub (subject q) \<and> matches pred (predicate q)
                 \<and> matches obj (object q) \<and> matches gr (graph q))"
  unfolding countQuads_def length_greater_0_conv
  by (metis (no_types, lifting) set_getQuads empty_iff mem_Collect_eq set_empty2 equals0I)

lemma set_fold_addQuads:
  "set (fold (\<lambda>subject newStore. addQuads (f subject) newStore) auths acc)
     = (\<Union>a \<in> set auths. set (f a)) \<union> set acc"
  by (induction auths arbitrary: acc) (auto simp: set_addQuads)

lemma distinct_fold_addQuads:
  "distinct acc \<Longrightarrow> distinct (fold (\<lambda>subject newStore. addQuads (f subject) newStore) auths acc)"
  by (induction auths arbitrary: acc) (auto simp: distinct_addQuads)

section \<open>filterData\<close>

lemma filterData_set:
  assumes "data rep = Inr qs"
  shows "\<exists>st. filterData rep pred obj = Inr st \<and> distinct st \<and>
           set st = {q \<in> set qs. \<exists>q' \<in> set qs. subject q' = subject q
                                   \<and> predicate q' = pred \<and> object q' = obj}"
  using assms
  by (auto simp: filterData_def Let_def set_fold_addQuads distinct_fold_addQuads
                 set_getQuads set_addQuads)


text \<open>
  Claim C8. \<open>filterData\<close> is insensitive to the order of its input: two streams that
  deliver the same statements give stores with the same statements, namely exactly the
  statements whose subject is also the subject of a statement with the given predicate
  and object.
\<close>

theorem filterData_order_insensitive:
  assumes "set xs = set ys"
  shows "\<exists>s t. filterData (Representation (Inr xs)) pred obj = Inr s
             \<and> filterData (Representation (Inr ys)) pred obj = Inr t
             \<and> set s = set t
             \<and> set s = {q \<in> set xs. \<exists>q' \<in> set xs. subject q' = subject q
                                      \<and> predicate q' = pred \<and> object q' = obj}"
proof -
  obtain s where s: "filterData (Representation (Inr xs)) pred obj = Inr s"
    "set s = {q \<in> set xs. \<exists>q' \<in> set xs. subject q' = subject q
                            \<and> predicate q' = pred \<and> object q' = obj}"
    using filterData_set [of "Representation (Inr xs)" xs pred obj] by auto
  obtain t where t: "filterData (Representation (Inr ys)) pred obj = Inr t"
    "set t = {q \<in> set ys. \<exists>q' \<in> set ys. subject q' = subject q
                            \<and> predicate q' = pred \<and> object q' = obj}"
    using filterData_set [of "Representation (Inr ys)" ys pred obj] by auto
  from s t assms show ?thesis by simp
qed

theorem filterData_order_insensitive_witness:
  "set public_read_acl = set (rev public_read_acl)
   \<and> (\<exists>s t. filterData (Representation (Inr public_read_acl)) (ACL ''default'') ''/a/'' = Inr s
          \<and> filterData (Representation (Inr (rev public_read_acl))) (ACL ''default'') ''/a/'' = Inr t
          \<and> set s = set t
          \<and> set s = {q \<in> set public_read_acl. \<exists>q' \<in> set public_read_acl. subject q' = subject q
                        \<and> predicate q' = ACL ''default'' \<and> object q' = ''/a/''})"
  using filterData_order_insensitive [of public_read_acl "rev public_read_acl" "ACL ''default''" "''/a/''"]
  by simp

section \<open>hasAccess and checkPermission\<close>

lemma hasAccess_iff:
  "hasAccess agent auth store \<longleftrightarrow>
     (\<exists>q \<in> set store. subject q = auth \<and> predicate q = ACL ''agentClass'' \<and> object q = FOAF ''Agent'')
   \<or> (webID agent \<noteq> None \<and>
       (\<exists>q \<in> set store. subject q = auth \<and> predicate q = ACL ''agentClass''
                        \<and> object q = FOAF ''AuthenticatedAgent''))
   \<or> (\<exists>w. webID agent = Some w \<and>
       (\<exists>q \<in> set store. subject q = auth \<and> predicate q = ACL ''agent'' \<and> object q = w))"
  by (auto simp: hasAccess_def countQuads_pos split: option.splits)

lemma checkPermission_cases:
  "checkPermission agent store m =
     (if \<exists>q \<in> set store. predicate q = ACL ''mode'' \<and> object q = ACL (capitalize m)
                         \<and> hasAccess agent (subject q) store
      then Inr ()
      else if webID agent = None then Inl UnauthorizedHttpError else Inl ForbiddenHttpError)"
  by (auto simp: checkPermission_def Let_def list_ex_iff set_getQuads)

text \<open>
  Claim C2. A denial is \<open>UnauthorizedHttpError\<close> when the credentials carry no webID,
  and \<open>ForbiddenHttpError\<close> when they carry one.
\<close>

theorem checkPermission_denial_kind:
  assumes "checkPermission agent store m = Inl e"
  shows "(webID agent = None \<longrightarrow> e = UnauthorizedHttpError)
       \<and> (webID agent \<noteq> None \<longrightarrow> e = ForbiddenHttpError)"
  using assms by (auto simp: checkPermission_cases split: if_splits)

theorem checkPermission_denial_kind_witness:
  "checkPermission (Credentials None) [] Write = Inl UnauthorizedHttpError
   \<and> checkPermission (Credentials (Some ''https://example.org/bob'')) [] Write = Inl ForbiddenHttpError"
proof -
  obtain e where e: "checkPermission (Credentials None) [] Write = Inl e"
    by (simp add: checkPermission_cases)
  obtain f where f: "checkPermission (Credentials (Some ''https://example.org/bob'')) [] Write = Inl f"
    by (simp add: checkPermission_cases)
  from checkPermission_denial_kind [OF e] checkPermission_denial_kind [OF f] e f
  show ?thesis by simp
qed

text \<open>
  Claim C6. A mode is granted exactly when some authorization that lists the mode has a
  public grant, or an authenticated-agent grant while the credentials carry a webID, or
  an agent grant whose object is the webID of the credentials.
\<close>

theorem checkPermission_granted_iff:
  "checkPermission agent store m = Inr () \<longleftrightarrow>
     (\<exists>auth.
        (\<exists>q \<in> set store. subject q = auth \<and> predicate q = ACL ''mode''
                         \<and> object q = ACL (capitalize m))
      \<and> ((\<exists>q \<in> set store. subject q = auth \<and> predicate q = ACL ''agentClass''
                           \<and> object q = FOAF ''Agent'')
         \<or> (webID agent \<noteq> None \<and>
             (\<exists>q \<in> set store. subject q = auth \<and> predicate q = ACL ''agentClass''
                              \<and> object q = FOAF ''AuthenticatedAgent''))
         \<or> (\<exists>w. webID agent = Some w \<and>
             (\<exists>q \<in> set store. subject q = auth \<and> predicate q = ACL ''agent'' \<and> object q = w))))"
proof -
  have "checkPermission agent store m = Inr () \<longleftrightarrow>
          (\<exists>q \<in> set store. predicate q = ACL ''mode'' \<and> object q = ACL (capitalize m)
                           \<and> hasAccess agent (subject q) store)"
    by (simp add: checkPermission_cases)
  also have "\<dots> \<longleftrightarrow>
          (\<exists>auth. (\<exists>q \<in> set store. subject q = auth \<and> predicate q = ACL ''mode''
                                  \<and> object q = ACL (capitalize m))
                 \<and> hasAccess agent auth store)"
    by blast
  finally show ?thesis
    unfolding hasAccess_iff .
qed

theorem checkPermission_granted_iff_witness:
  "checkPermission (Credentials (Some ''https://example.org/alice'')) alice_acl Control = Inr ()
   \<and> checkPermission (Credentials (Some ''https://example.org/bob'')) alice_acl Control
       = Inl ForbiddenHttpError
   \<and> checkPermission (Credentials None) alice_acl Read = Inr ()"
proof -
  have a: "checkPermission (Credentials (Some ''https://example.org/alice'')) alice_acl Control = Inr ()"
    unfolding checkPermission_granted_iff [of "Credentials (Some ''https://example.org/alice'')" alice_acl Control]
    by (rule exI [of _ "''#owner''"]) (simp add: alice_acl_def ACL_def FOAF_def)
  have c: "checkPermission (Credentials None) alice_acl Read = Inr ()"
    unfolding checkPermission_granted_iff [of "Credentials None" alice_acl Read]
    by (rule exI [of _ "''#all''"]) (simp add: alice_acl_def ACL_def FOAF_def)
  have "checkPermission (Credentials (Some ''https://example.org/bob'')) alice_acl Control \<noteq> Inr ()"
    unfolding checkPermission_granted_iff [of "Credentials (Some ''https://example.org/bob'')" alice_acl Control]
    by (auto simp: alice_acl_def ACL_def FOAF_def)
  then have b: "checkPermission (Credentials (Some ''https://example.org/bob'')) alice_acl Control
                  = Inl ForbiddenHttpError"
    by (simp add: checkPermission_cases split: if_splits)
  from a b c show ?thesis by simp
qed

section \<open>Properties of the walk\<close>

lemma tryReadAcl_probe:
  "tryReadAcl env ident recurse log =
     (log @ probeLog env ident,
      case probe env ident of
        Inl e \<Rightarrow> Caught e
      | Inr representation \<Rightarrow>
          Returned (filterData representation (if recurse then ACL ''default'' else ACL ''accessTo'')
                      (path ident)))"
  by (simp add: tryReadAcl_def probe_def probeLog_def split: sum.splits)

lemma getAclRecursive_found:
  "probe env ident = Inr representation \<Longrightarrow>
   getAclRecursive env ident recurse log =
     Some (log @ probeLog env ident,
           filterData representation (if recurse then ACL ''default'' else ACL ''accessTo'') (path ident))"
  by (subst getAclRecursive.simps) (simp add: tryReadAcl_probe)

lemma getAclRecursive_error:
  "probe env ident = Inl e \<Longrightarrow> e \<noteq> NotFoundHttpError \<Longrightarrow>
   getAclRecursive env ident recurse log = Some (log @ probeLog env ident, Inl e)"
  by (subst getAclRecursive.simps) (simp add: tryReadAcl_probe)

lemma getAclRecursive_notFound:
  "probe env ident = Inl NotFoundHttpError \<Longrightarrow>
   getAclRecursive env ident recurse log =
     (case getParentContainer env ident of
        Inl e \<Rightarrow> Some (log @ probeLog env ident @ [Called_getParentContainer ident], Inl e)
      | Inr parent \<Rightarrow>
          getAclRecursive env parent True (log @ probeLog env ident @ [Called_getParentContainer ident]))"
  by (subst getAclRecursive.simps) (simp add: tryReadAcl_probe split: sum.splits)

lemma getAclRecursive_climbs:
  "climbs env ident ps \<Longrightarrow>
   getAclRecursive env ident recurse log =
     getAclRecursive env (last (ident # ps)) (recurse \<or> ps \<noteq> []) (log @ climbLog env ident ps)"
proof (induction ps arbitrary: ident recurse log)
  case Nil
  then show ?case by simp
next
  case (Cons p ps)
  from Cons.prems have nf: "probe env ident = Inl NotFoundHttpError"
    and par: "getParentContainer env ident = Inr p" and rest: "climbs env p ps"
    by simp_all
  show ?case
    using Cons.IH [OF rest, of True "log @ probeLog env ident @ [Called_getParentContainer ident]"]
    by (simp add: getAclRecursive_notFound [OF nf] par)
qed

lemma resolutionEvent_probeLog: "\<forall>ev \<in> set (probeLog env ident). resolutionEvent ev"
  by (simp add: probeLog_def split: sum.splits)

lemma getAclRecursive_log:
  assumes "getAclRecursive env ident recurse log = Some y"
  shows "\<exists>evs. fst y = log @ evs \<and> (\<forall>ev \<in> set evs. resolutionEvent ev)"
proof (rule getAclRecursive.raw_induct
         [where P = "\<lambda>env ident recurse log y.
                       \<exists>evs. fst y = log @ evs \<and> (\<forall>ev \<in> set evs. resolutionEvent ev)",
          OF _ assms])
  fix rec env ident recurse log y
  assume IH: "\<And>ident recurse log b y. rec ident recurse log b = Some y \<Longrightarrow>
                \<exists>evs. fst y = b @ evs \<and> (\<forall>ev \<in> set evs. resolutionEvent ev)"
    and body: "(case tryReadAcl env ident recurse log of
                  (log1, Caught error) \<Rightarrow>
                    if error = NotFoundHttpError
                    then case getParentContainer env ident of
                           Inl e \<Rightarrow> Some (log1 @ [Called_getParentContainer ident], Inl e)
                         | Inr parent \<Rightarrow> rec env parent True (log1 @ [Called_getParentContainer ident])
                    else Some (log1, Inl error)
                | (log1, Returned result) \<Rightarrow> Some (log1, result)) = Some y"
  show "\<exists>evs. fst y = log @ evs \<and> (\<forall>ev \<in> set evs. resolutionEvent ev)"
  proof (cases "probe env ident")
    case (Inr representation)
    with body have "fst y = log @ probeLog env ident"
      by (auto simp: tryReadAcl_probe)
    then show ?thesis using resolutionEvent_probeLog by blast
  next
    case (Inl e)
    show ?thesis
    proof (cases "e = NotFoundHttpError")
      case False
      with Inl body have "fst y = log @ probeLog env ident"
        by (auto simp: tryReadAcl_probe)
      then show ?thesis using resolutionEvent_probeLog by blast
    next
      case True
      show ?thesis
      proof (cases "getParentContainer env ident")
        case (Inl e')
        with True \<open>probe env ident = Inl e\<close> body
        have "fst y = log @ (probeLog env ident @ [Called_getParentContainer ident])"
          by (auto simp: tryReadAcl_probe)
        moreover have "\<forall>ev \<in> set (probeLog env ident @ [Called_getParentContainer ident]). resolutionEvent ev"
          using resolutionEvent_probeLog by simp
        ultimately show ?thesis by blast
      next
        case (Inr parent)
        with True \<open>probe env ident = Inl e\<close> body
        have "rec env parent True ((log @ probeLog env ident) @ [Called_getParentContainer ident]) = Some y"
          by (auto simp: tryReadAcl_probe)
        from IH [OF this] obtain evs where
          evs: "fst y = ((log @ probeLog env ident) @ [Called_getParentContainer ident]) @ evs"
               "\<forall>ev \<in> set evs. resolutionEvent ev"
          by blast
        have "fst y = log @ (probeLog env ident @ [Called_getParentContainer ident] @ evs)"
          using evs(1) by simp
        moreover have "\<forall>ev \<in> set (probeLog env ident @ [Called_getParentContainer ident] @ evs). resolutionEvent ev"
          using evs(2) resolutionEvent_probeLog [of env ident] by auto
        ultimately show ?thesis by blast
      qed
    qed
  qed
qed





text \<open>
  Whatever the path utility does, the resolution yields a store only from a document
  it has fetched: where every probe fails, no store, empty or not, is ever returned.
\<close>

lemma getAclRecursive_store_needs_document:
  assumes res: "getAclRecursive env ident recurse log = Some y"
    and st: "snd y = Inr st"
  shows "\<exists>i representation. probe env i = Inr representation"
proof -
  have "(\<exists>st. snd y = Inr st) \<longrightarrow> (\<exists>i representation. probe env i = Inr representation)"
  proof (rule getAclRecursive.raw_induct
         [where P = "\<lambda>env ident recurse log y.
                       (\<exists>st. snd y = Inr st) \<longrightarrow> (\<exists>i representation. probe env i = Inr representation)",
          OF _ res])
    fix rec env ident recurse log y
    assume IH: "\<And>ident recurse log b y. rec ident recurse log b = Some y \<Longrightarrow>
                  (\<exists>st. snd y = Inr st) \<longrightarrow> (\<exists>i representation. probe ident i = Inr representation)"
      and body: "(case tryReadAcl env ident recurse log of
                    (log1, Caught error) \<Rightarrow>
                      if error = NotFoundHttpError
                      then case getParentContainer env ident of
                             Inl e \<Rightarrow> Some (log1 @ [Called_getParentContainer ident], Inl e)
                           | Inr parent \<Rightarrow> rec env parent True (log1 @ [Called_getParentContainer ident])
                      else Some (log1, Inl error)
                  | (log1, Returned result) \<Rightarrow> Some (log1, result)) = Some y"
    show "(\<exists>st. snd y = Inr st) \<longrightarrow> (\<exists>i representation. probe env i = Inr representation)"
    proof (cases "probe env ident")
      case (Inr representation)
      then show ?thesis by blast
    next
      case (Inl e)
      show ?thesis
      proof (cases "e = NotFoundHttpError")
        case False
        with Inl body show ?thesis by (auto simp: tryReadAcl_probe)
      next
        case True
        show ?thesis
        proof (cases "getParentContainer env ident")
          case (Inl e')
          with True \<open>probe env ident = Inl e\<close> body show ?thesis
            by (auto simp: tryReadAcl_probe)
        next
          case (Inr parent)
          with True \<open>probe env ident = Inl e\<close> body
          have "rec env parent True ((log @ probeLog env ident) @ [Called_getParentContainer ident]) = Some y"
            by (auto simp: tryReadAcl_probe)
          from IH [OF this] show ?thesis .
        qed
      qed
    qed
  qed
  with st show ?thesis by blast
qed

section \<open>Properties of handle\<close>

lemma forEach_checks:
  "forEach keys
     (\<lambda>key log2. if property ps key
                  then (log2 @ [Called_checkPermission key], checkPermission agent store key)
                  else (log2, Inr ()))
     log =
   (log @ map Called_checkPermission (evaluatedModes agent store (filter (property ps) keys)),
    case dropWhile (granted agent store) (filter (property ps) keys) of
      [] \<Rightarrow> Inr ()
    | m # _ \<Rightarrow> checkPermission agent store m)"
proof (induction keys arbitrary: log)
  case Nil
  then show ?case by (simp add: evaluatedModes_def)
next
  case (Cons key keys)
  show ?case
  proof (cases "property ps key")
    case False
    then show ?thesis using Cons.IH by simp
  next
    case True
    show ?thesis
    proof (cases "checkPermission agent store key")
      case (Inl e)
      then have "\<not> granted agent store key" by (simp add: granted_def)
      with True Inl show ?thesis by (simp add: evaluatedModes_def)
    next
      case (Inr u)
      then have "granted agent store key" by (simp add: granted_def)
      with True Inr show ?thesis
        using Cons.IH [of "log @ [Called_checkPermission key]"]
        by (simp add: evaluatedModes_def)
    qed
  qed
qed

lemma handle_not_acl:
  assumes "isAcl env (identifier input) = Inr False"
    and "getAclRecursive env (identifier input) False log = Some (log1, Inr store)"
  shows "handle env input log =
     Some (log1 @ Called_isAcl (identifier input)
             # map Called_checkPermission
                 (evaluatedModes (credentials input) store (requestedModes (permissions input))),
           case dropWhile (granted (credentials input) store) (requestedModes (permissions input)) of
             [] \<Rightarrow> Inr ()
           | m # _ \<Rightarrow> checkPermission (credentials input) store m)"
  using assms by (simp add: handle_def forEach_checks requestedModes_def)

lemma handle_acl:
  assumes "isAcl env (identifier input) = Inr True"
    and "getAclRecursive env (identifier input) False log = Some (log1, Inr store)"
  shows "handle env input log =
     Some (log1 @ [Called_isAcl (identifier input), Called_checkPermission Control],
           checkPermission (credentials input) store Control)"
  using assms by (simp add: handle_def)

lemma handle_resolution_error:
  assumes "getAclRecursive env (identifier input) False log = Some (log1, Inl e)"
  shows "handle env input log = Some (log1, Inl e)"
  using assms by (simp add: handle_def)


text \<open>
  \<open>handle\<close> in terms of the outcome of the resolution: it does not settle when the
  resolution does not, it ends in the resolution's error without calling \<open>isAcl\<close>,
  and after a store it calls \<open>isAcl\<close> once and then only \<open>checkPermission\<close>.
\<close>

lemma handle_unsettled:
  "getAclRecursive env (identifier input) False log = None \<Longrightarrow> handle env input log = None"
  by (simp add: handle_def)

lemma handle_after_store:
  assumes "getAclRecursive env (identifier input) False log = Some (log1, Inr store)"
  shows "\<exists>checks r. handle env input log = Some (log1 @ Called_isAcl (identifier input) # checks, r)
                   \<and> list_all checkEvent checks"
proof (cases "isAcl env (identifier input)")
  case (Inl e)
  with assms have "handle env input log = Some (log1 @ Called_isAcl (identifier input) # [], Inl e)"
    by (simp add: handle_def)
  moreover have "list_all checkEvent []" by simp
  ultimately show ?thesis by blast
next
  case isacl: (Inr acl)
  show ?thesis
  proof (cases acl)
    case True
    with isacl have t: "isAcl env (identifier input) = Inr True" by simp
    from handle_acl [OF t assms]
    have "handle env input log =
            Some (log1 @ Called_isAcl (identifier input) # [Called_checkPermission Control],
                  checkPermission (credentials input) store Control)"
      by simp
    moreover have "list_all checkEvent [Called_checkPermission Control]" by simp
    ultimately show ?thesis by blast
  next
    case False
    with isacl have f: "isAcl env (identifier input) = Inr False" by simp
    let ?checks = "map Called_checkPermission
                     (evaluatedModes (credentials input) store (requestedModes (permissions input)))"
    have "list_all checkEvent ?checks"
      by (simp add: list_all_iff)
    with handle_not_acl [OF f assms] show ?thesis by blast
  qed
qed

section \<open>The claims about the walk\<close>

text \<open>
  Claim C3, as amended. When no ACL resource exists at the target nor at any ancestor
  up to and including the root (the identifier whose parent cannot be computed), the
  resolution terminates at the root with the error that \<open>getParentContainer\<close> raises
  there, and \<open>handle\<close> propagates that error: no authorization set is produced,
  \<open>isAcl\<close> is not consulted and no mode is evaluated.
\<close>

theorem no_acl_up_to_root_fails_at_root:
  assumes "climbs env (identifier input) ancestors"
    and "probe env (last (identifier input # ancestors)) = Inl NotFoundHttpError"
    and "getParentContainer env (last (identifier input # ancestors)) = Inl e"
  shows "getAclRecursive env (identifier input) False log =
           Some (log @ climbLog env (identifier input) ancestors
                     @ probeLog env (last (identifier input # ancestors))
                     @ [Called_getParentContainer (last (identifier input # ancestors))],
                 Inl e)
       \<and> handle env input log =
           Some (log @ climbLog env (identifier input) ancestors
                     @ probeLog env (last (identifier input # ancestors))
                     @ [Called_getParentContainer (last (identifier input # ancestors))],
                 Inl e)"
proof -
  let ?root = "last (identifier input # ancestors)"
  have "getAclRecursive env (identifier input) False log =
          getAclRecursive env ?root (False \<or> ancestors \<noteq> [])
            (log @ climbLog env (identifier input) ancestors)"
    by (rule getAclRecursive_climbs [OF assms(1)])
  also have "\<dots> = Some ((log @ climbLog env (identifier input) ancestors)
                          @ probeLog env ?root @ [Called_getParentContainer ?root], Inl e)"
    unfolding getAclRecursive_notFound [OF assms(2)] assms(3) by simp
  finally have res: "getAclRecursive env (identifier input) False log =
          Some (log @ climbLog env (identifier input) ancestors
                    @ probeLog env ?root @ [Called_getParentContainer ?root], Inl e)"
    by simp
  from res handle_resolution_error [OF res] show ?thesis
    by (rule conjI)
qed

theorem no_acl_up_to_root_fails_at_root_witness:
  "climbs (example_env [])
     (identifier \<lparr>identifier = ResourceIdentifier ''/a/b'', credentials = Credentials None,
                  permissions = [(Read, True)]\<rparr>)
     [ResourceIdentifier ''/a/'', ResourceIdentifier ''/'']
   \<and> handle (example_env [])
       \<lparr>identifier = ResourceIdentifier ''/a/b'', credentials = Credentials None,
        permissions = [(Read, True)]\<rparr> []
     = Some ([Called_getAcl (ResourceIdentifier ''/a/b''),
              Called_getRepresentation (ResourceIdentifier ''/a/b.acl''),
              Called_getParentContainer (ResourceIdentifier ''/a/b''),
              Called_getAcl (ResourceIdentifier ''/a/''),
              Called_getRepresentation (ResourceIdentifier ''/a/.acl''),
              Called_getParentContainer (ResourceIdentifier ''/a/''),
              Called_getAcl (ResourceIdentifier ''/''),
              Called_getRepresentation (ResourceIdentifier ''/.acl''),
              Called_getParentContainer (ResourceIdentifier ''/'')],
             Inl (OtherError ''root has no parent''))"
proof -
  let ?input = "\<lparr>identifier = ResourceIdentifier ''/a/b'', credentials = Credentials None,
                  permissions = [(Read, True)]\<rparr>"
  let ?ancestors = "[ResourceIdentifier ''/a/'', ResourceIdentifier ''/'']"
  have c: "climbs (example_env []) (identifier ?input) ?ancestors"
    by code_simp
  have p: "probe (example_env []) (last (identifier ?input # ?ancestors)) = Inl NotFoundHttpError"
    by code_simp
  have r: "getParentContainer (example_env []) (last (identifier ?input # ?ancestors))
             = Inl (OtherError ''root has no parent'')"
    by code_simp
  have l: "[] @ climbLog (example_env []) (identifier ?input) ?ancestors
              @ probeLog (example_env []) (last (identifier ?input # ?ancestors))
              @ [Called_getParentContainer (last (identifier ?input # ?ancestors))]
           = [Called_getAcl (ResourceIdentifier ''/a/b''),
              Called_getRepresentation (ResourceIdentifier ''/a/b.acl''),
              Called_getParentContainer (ResourceIdentifier ''/a/b''),
              Called_getAcl (ResourceIdentifier ''/a/''),
              Called_getRepresentation (ResourceIdentifier ''/a/.acl''),
              Called_getParentContainer (ResourceIdentifier ''/a/''),
              Called_getAcl (ResourceIdentifier ''/''),
              Called_getRepresentation (ResourceIdentifier ''/.acl''),
              Called_getParentContainer (ResourceIdentifier ''/'')]"
    by code_simp
  from no_acl_up_to_root_fails_at_root [OF c p r, of "[]"] have
    "handle (example_env []) ?input [] =
       Some ([] @ climbLog (example_env []) (identifier ?input) ?ancestors
              @ probeLog (example_env []) (last (identifier ?input # ?ancestors))
              @ [Called_getParentContainer (last (identifier ?input # ?ancestors))],
             Inl (OtherError ''root has no parent''))"
    by (rule conjunct2)
  with c show ?thesis unfolding l by blast
qed

text \<open>
  The claim as the spec states it fails: with no ACL resource anywhere, the resolution
  for \<open>/a/b\<close> does not yield the empty authorization set, and the check does not end in
  a denial but in the error raised for the parent of the root.
\<close>

theorem no_acl_up_to_root_counterexample:
  "probe (example_env []) (ResourceIdentifier ''/a/b'') = Inl NotFoundHttpError
   \<and> probe (example_env []) (ResourceIdentifier ''/a/'') = Inl NotFoundHttpError
   \<and> probe (example_env []) (ResourceIdentifier ''/'') = Inl NotFoundHttpError
   \<and> map_option snd (getAclRecursive (example_env []) (ResourceIdentifier ''/a/b'') False [])
       \<noteq> Some (Inr [])
   \<and> map_option snd
        (handle (example_env [])
           \<lparr>identifier = ResourceIdentifier ''/a/b'', credentials = Credentials None,
            permissions = [(Read, True)]\<rparr> [])
       = Some (Inl (OtherError ''root has no parent''))"
proof -
  have 1: "probe (example_env []) (ResourceIdentifier ''/a/b'') = Inl NotFoundHttpError"
    by code_simp
  have 2: "probe (example_env []) (ResourceIdentifier ''/a/'') = Inl NotFoundHttpError"
    by code_simp
  have 3: "probe (example_env []) (ResourceIdentifier ''/'') = Inl NotFoundHttpError"
    by code_simp
  have 4: "map_option snd (getAclRecursive (example_env []) (ResourceIdentifier ''/a/b'') False [])
             \<noteq> Some (Inr [])"
    by code_simp
  have 5: "map_option snd
        (handle (example_env [])
           \<lparr>identifier = ResourceIdentifier ''/a/b'', credentials = Credentials None,
            permissions = [(Read, True)]\<rparr> [])
       = Some (Inl (OtherError ''root has no parent''))"
    by code_simp
  from 1 2 3 4 5 show ?thesis by blast
qed




text \<open>
  Claim C5. The ACL found at the first probe, that of the target itself, is filtered by
  \<open>accessTo\<close>; the ACL found at a later probe, that of an ancestor, is filtered by
  \<open>default\<close>; the two predicates differ, and the other one plays no part in the result.
\<close>

theorem scope_predicate_by_probe:
  assumes "climbs env target ancestors"
    and "probe env (last (target # ancestors)) = Inr representation"
  shows "getAclRecursive env target False log =
           Some (log @ climbLog env target ancestors @ probeLog env (last (target # ancestors)),
                 filterData representation
                   (if ancestors = [] then ACL ''accessTo'' else ACL ''default'')
                   (path (last (target # ancestors))))
       \<and> ACL ''accessTo'' \<noteq> ACL ''default''"
proof -
  let ?at = "last (target # ancestors)"
  have "getAclRecursive env target False log =
          getAclRecursive env ?at (False \<or> ancestors \<noteq> []) (log @ climbLog env target ancestors)"
    by (rule getAclRecursive_climbs [OF assms(1)])
  also have "\<dots> = Some ((log @ climbLog env target ancestors) @ probeLog env ?at,
                          filterData representation
                            (if False \<or> ancestors \<noteq> [] then ACL ''default'' else ACL ''accessTo'')
                            (path ?at))"
    by (rule getAclRecursive_found [OF assms(2)])
  finally have "getAclRecursive env target False log =
           Some (log @ climbLog env target ancestors @ probeLog env ?at,
                 filterData representation
                   (if ancestors = [] then ACL ''accessTo'' else ACL ''default'') (path ?at))"
    by (cases "ancestors = []") simp_all
  moreover have "ACL ''accessTo'' \<noteq> ACL ''default''"
    by (simp add: ACL_def)
  ultimately show ?thesis by (rule conjI)
qed

theorem scope_predicate_by_probe_witness:
  "getAclRecursive (example_env [(''/a/b/c.acl'', Representation (Inr alice_acl))])
     (ResourceIdentifier ''/a/b/c'') False []
   = Some ([Called_getAcl (ResourceIdentifier ''/a/b/c''),
            Called_getRepresentation (ResourceIdentifier ''/a/b/c.acl'')],
           Inr [Quad ''#owner'' (ACL ''accessTo'') ''/a/b/c'' [],
                Quad ''#owner'' (ACL ''mode'') (ACL ''Control'') [],
                Quad ''#owner'' (ACL ''agent'') ''https://example.org/alice'' []])
   \<and> getAclRecursive (example_env [(''/a/.acl'', Representation (Inr public_read_acl))])
       (ResourceIdentifier ''/a/b'') False []
   = Some ([Called_getAcl (ResourceIdentifier ''/a/b''),
            Called_getRepresentation (ResourceIdentifier ''/a/b.acl''),
            Called_getParentContainer (ResourceIdentifier ''/a/b''),
            Called_getAcl (ResourceIdentifier ''/a/''),
            Called_getRepresentation (ResourceIdentifier ''/a/.acl'')],
           Inr public_read_acl)"
proof -
  let ?env1 = "example_env [(''/a/b/c.acl'', Representation (Inr alice_acl))]"
  let ?env2 = "example_env [(''/a/.acl'', Representation (Inr public_read_acl))]"
  have c1: "climbs ?env1 (ResourceIdentifier ''/a/b/c'') []"
    by simp
  have p1: "probe ?env1 (last (ResourceIdentifier ''/a/b/c'' # []))
              = Inr (Representation (Inr alice_acl))"
    by code_simp
  have l1: "[] @ climbLog ?env1 (ResourceIdentifier ''/a/b/c'') []
              @ probeLog ?env1 (last (ResourceIdentifier ''/a/b/c'' # []))
            = [Called_getAcl (ResourceIdentifier ''/a/b/c''),
               Called_getRepresentation (ResourceIdentifier ''/a/b/c.acl'')]"
    by code_simp
  have f1: "filterData (Representation (Inr alice_acl))
              (if [] = ([] :: ResourceIdentifier list) then ACL ''accessTo'' else ACL ''default'')
              (path (last (ResourceIdentifier ''/a/b/c'' # [])))
            = Inr [Quad ''#owner'' (ACL ''accessTo'') ''/a/b/c'' [],
                   Quad ''#owner'' (ACL ''mode'') (ACL ''Control'') [],
                   Quad ''#owner'' (ACL ''agent'') ''https://example.org/alice'' []]"
    by code_simp
  have c2: "climbs ?env2 (ResourceIdentifier ''/a/b'') [ResourceIdentifier ''/a/'']"
    by code_simp
  have p2: "probe ?env2 (last (ResourceIdentifier ''/a/b'' # [ResourceIdentifier ''/a/'']))
              = Inr (Representation (Inr public_read_acl))"
    by code_simp
  have l2: "[] @ climbLog ?env2 (ResourceIdentifier ''/a/b'') [ResourceIdentifier ''/a/'']
              @ probeLog ?env2 (last (ResourceIdentifier ''/a/b'' # [ResourceIdentifier ''/a/'']))
            = [Called_getAcl (ResourceIdentifier ''/a/b''),
               Called_getRepresentation (ResourceIdentifier ''/a/b.acl''),
               Called_getParentContainer (ResourceIdentifier ''/a/b''),
               Called_getAcl (ResourceIdentifier ''/a/''),
               Called_getRepresentation (ResourceIdentifier ''/a/.acl'')]"
    by code_simp
  have f2: "filterData (Representation (Inr public_read_acl))
              (if [ResourceIdentifier ''/a/''] = [] then ACL ''accessTo'' else ACL ''default'')
              (path (last (ResourceIdentifier ''/a/b'' # [ResourceIdentifier ''/a/''])))
            = Inr public_read_acl"
    by code_simp
  from scope_predicate_by_probe [OF c1 p1, of "[]"] scope_predicate_by_probe [OF c2 p2, of "[]"]
  show ?thesis unfolding l1 f1 l2 f2 by blast
qed

text \<open>
  Claim C9. At a recursive probe the object given to \<open>filterData\<close> is the path of the
  ancestor being probed: the statements kept are exactly those of the subjects that
  have a \<open>default\<close> statement whose object is that ancestor's path. A subject whose
  \<open>default\<close> statements all name the original target, or anything else, contributes
  nothing.
\<close>

theorem default_object_is_probed_ancestor:
  assumes "climbs env target ancestors"
    and "ancestors \<noteq> []"
    and "probe env (last ancestors) = Inr representation"
    and "data representation = Inr qs"
  shows "\<exists>st. getAclRecursive env target False log =
                Some (log @ climbLog env target ancestors @ probeLog env (last ancestors), Inr st)
           \<and> set st = {q \<in> set qs. \<exists>q' \<in> set qs. subject q' = subject q
                                    \<and> predicate q' = ACL ''default''
                                    \<and> object q' = path (last ancestors)}"
proof -
  from assms(2) have at: "last (target # ancestors) = last ancestors"
    by simp
  have "getAclRecursive env target False log =
          getAclRecursive env (last (target # ancestors)) (False \<or> ancestors \<noteq> [])
            (log @ climbLog env target ancestors)"
    by (rule getAclRecursive_climbs [OF assms(1)])
  also have "\<dots> = getAclRecursive env (last ancestors) True (log @ climbLog env target ancestors)"
    using assms(2) at by simp
  also have "\<dots> = Some ((log @ climbLog env target ancestors) @ probeLog env (last ancestors),
                          filterData representation (if True then ACL ''default'' else ACL ''accessTo'')
                            (path (last ancestors)))"
    by (rule getAclRecursive_found [OF assms(3)])
  finally have res: "getAclRecursive env target False log =
          Some (log @ climbLog env target ancestors @ probeLog env (last ancestors),
                filterData representation (ACL ''default'') (path (last ancestors)))"
    by simp
  from filterData_set [OF assms(4), of "ACL ''default''" "path (last ancestors)"]
  obtain st where "filterData representation (ACL ''default'') (path (last ancestors)) = Inr st"
    and "set st = {q \<in> set qs. \<exists>q' \<in> set qs. subject q' = subject q
                                 \<and> predicate q' = ACL ''default''
                                 \<and> object q' = path (last ancestors)}"
    by blast
  with res show ?thesis by simp
qed

theorem default_object_is_probed_ancestor_witness:
  "getAclRecursive (example_env [(''/a/b/.acl'', Representation (Inr alice_acl))])
     (ResourceIdentifier ''/a/b/c'') False []
   = Some ([Called_getAcl (ResourceIdentifier ''/a/b/c''),
            Called_getRepresentation (ResourceIdentifier ''/a/b/c.acl''),
            Called_getParentContainer (ResourceIdentifier ''/a/b/c''),
            Called_getAcl (ResourceIdentifier ''/a/b/''),
            Called_getRepresentation (ResourceIdentifier ''/a/b/.acl'')],
           Inr [])"
proof -
  let ?env = "example_env [(''/a/b/.acl'', Representation (Inr alice_acl))]"
  let ?target = "ResourceIdentifier ''/a/b/c''"
  let ?ancestors = "[ResourceIdentifier ''/a/b/'']"
  have c: "climbs ?env ?target ?ancestors"
    by code_simp
  have n: "?ancestors \<noteq> []"
    by simp
  have p: "probe ?env (last ?ancestors) = Inr (Representation (Inr alice_acl))"
    by code_simp
  have d: "data (Representation (Inr alice_acl)) = Inr alice_acl"
    by simp
  have l: "[] @ climbLog ?env ?target ?ancestors @ probeLog ?env (last ?ancestors)
           = [Called_getAcl (ResourceIdentifier ''/a/b/c''),
              Called_getRepresentation (ResourceIdentifier ''/a/b/c.acl''),
              Called_getParentContainer (ResourceIdentifier ''/a/b/c''),
              Called_getAcl (ResourceIdentifier ''/a/b/''),
              Called_getRepresentation (ResourceIdentifier ''/a/b/.acl'')]"
    by code_simp
  have e: "{q \<in> set alice_acl. \<exists>q' \<in> set alice_acl. subject q' = subject q
                \<and> predicate q' = ACL ''default'' \<and> object q' = path (last ?ancestors)} = {}"
    by (auto simp: alice_acl_def ACL_def)
  from default_object_is_probed_ancestor [OF c n p d, of "[]"]
  show ?thesis unfolding l e by simp
qed

section \<open>The claims about handle\<close>

text \<open>
  Claim C1. When the target is itself an ACL resource, \<open>handle\<close> evaluates exactly the
  mode \<open>Control\<close> against the resolved triples: the only invocation of
  \<open>checkPermission\<close> is the one for \<open>Control\<close>, its outcome is the outcome of the check,
  and the requested permission set has no influence.
\<close>

theorem acl_target_checks_control_only:
  assumes "isAcl env (identifier input) = Inr True"
    and "getAclRecursive env (identifier input) False log = Some (log1, Inr store)"
  shows "handle env input log =
           Some (log1 @ [Called_isAcl (identifier input), Called_checkPermission Control],
                 checkPermission (credentials input) store Control)
       \<and> handle env (input\<lparr>permissions := ps\<rparr>) log = handle env input log"
proof -
  have 1: "handle env input log =
           Some (log1 @ [Called_isAcl (identifier input), Called_checkPermission Control],
                 checkPermission (credentials input) store Control)"
    by (rule handle_acl [OF assms])
  have "isAcl env (identifier (input\<lparr>permissions := ps\<rparr>)) = Inr True"
    and "getAclRecursive env (identifier (input\<lparr>permissions := ps\<rparr>)) False log
           = Some (log1, Inr store)"
    using assms by simp_all
  from handle_acl [OF this] 1
  have "handle env (input\<lparr>permissions := ps\<rparr>) log = handle env input log"
    by simp
  with 1 show ?thesis by (rule conjI)
qed

theorem acl_target_checks_control_only_witness:
  "handle (example_env [(''/a/.acl'', Representation (Inr public_read_acl))])
     \<lparr>identifier = ResourceIdentifier ''/a/b/c.acl'', credentials = Credentials None,
      permissions = [(Read, True)]\<rparr> []
   = Some ([Called_getAcl (ResourceIdentifier ''/a/b/c.acl''),
            Called_getRepresentation (ResourceIdentifier ''/a/b/c.acl.acl''),
            Called_getParentContainer (ResourceIdentifier ''/a/b/c.acl''),
            Called_getAcl (ResourceIdentifier ''/a/b/''),
            Called_getRepresentation (ResourceIdentifier ''/a/b/.acl''),
            Called_getParentContainer (ResourceIdentifier ''/a/b/''),
            Called_getAcl (ResourceIdentifier ''/a/''),
            Called_getRepresentation (ResourceIdentifier ''/a/.acl''),
            Called_isAcl (ResourceIdentifier ''/a/b/c.acl''),
            Called_checkPermission Control],
           Inl UnauthorizedHttpError)
   \<and> checkPermission (Credentials None) public_read_acl Read = Inr ()"
proof -
  let ?env = "example_env [(''/a/.acl'', Representation (Inr public_read_acl))]"
  let ?input = "\<lparr>identifier = ResourceIdentifier ''/a/b/c.acl'', credentials = Credentials None,
                  permissions = [(Read, True)]\<rparr>"
  let ?log1 = "[Called_getAcl (ResourceIdentifier ''/a/b/c.acl''),
            Called_getRepresentation (ResourceIdentifier ''/a/b/c.acl.acl''),
            Called_getParentContainer (ResourceIdentifier ''/a/b/c.acl''),
            Called_getAcl (ResourceIdentifier ''/a/b/''),
            Called_getRepresentation (ResourceIdentifier ''/a/b/.acl''),
            Called_getParentContainer (ResourceIdentifier ''/a/b/''),
            Called_getAcl (ResourceIdentifier ''/a/''),
            Called_getRepresentation (ResourceIdentifier ''/a/.acl'')]"
  have a: "isAcl ?env (identifier ?input) = Inr True"
    by code_simp
  have r: "getAclRecursive ?env (identifier ?input) False [] = Some (?log1, Inr public_read_acl)"
    by code_simp
  have c: "checkPermission (credentials ?input) public_read_acl Control = Inl UnauthorizedHttpError"
    by code_simp
  have d: "checkPermission (Credentials None) public_read_acl Read = Inr ()"
    by code_simp
  from acl_target_checks_control_only [OF a r, of "[]"]
  have "handle ?env ?input [] =
          Some (?log1 @ [Called_isAcl (identifier ?input), Called_checkPermission Control],
                checkPermission (credentials ?input) public_read_acl Control)"
    by (rule conjunct1)
  with d show ?thesis unfolding c by simp
qed

text \<open>
  Claim C7. For a target that is not an ACL resource, \<open>handle\<close> invokes
  \<open>checkPermission\<close> for the modes marked requested, in key order, up to and including
  the first one that is not granted; the outcome is the denial of that mode, or success
  when there is none. The check succeeds exactly when every requested mode is granted,
  which includes the case that no mode is requested.
\<close>

theorem requested_modes_checked_in_order:
  assumes "isAcl env (identifier input) = Inr False"
    and "getAclRecursive env (identifier input) False log = Some (log1, Inr store)"
  shows "handle env input log =
           Some (log1 @ Called_isAcl (identifier input)
                   # map Called_checkPermission
                       (evaluatedModes (credentials input) store (requestedModes (permissions input))),
                 case dropWhile (granted (credentials input) store)
                        (requestedModes (permissions input)) of
                   [] \<Rightarrow> Inr ()
                 | m # _ \<Rightarrow> checkPermission (credentials input) store m)
       \<and> ((\<exists>log'. handle env input log = Some (log', Inr ()))
            \<longleftrightarrow> (\<forall>m \<in> set (requestedModes (permissions input)).
                   granted (credentials input) store m))"
proof -
  let ?g = "granted (credentials input) store"
  let ?req = "requestedModes (permissions input)"
  let ?out = "case dropWhile ?g ?req of [] \<Rightarrow> Inr () | m # _ \<Rightarrow> checkPermission (credentials input) store m"
  have h: "handle env input log =
             Some (log1 @ Called_isAcl (identifier input)
                     # map Called_checkPermission (evaluatedModes (credentials input) store ?req),
                   ?out)"
    by (rule handle_not_acl [OF assms])
  have "?out = Inr () \<longleftrightarrow> (\<forall>m \<in> set ?req. ?g m)"
  proof (cases "dropWhile ?g ?req")
    case Nil
    then have "\<forall>m \<in> set ?req. ?g m"
      by (simp add: dropWhile_eq_Nil_conv)
    moreover have "?out = Inr ()"
      unfolding Nil by simp
    ultimately show ?thesis by simp
  next
    case (Cons m ms)
    then have "\<not> ?g m"
      using hd_dropWhile [of ?g ?req] by simp
    moreover have "m \<in> set ?req"
      using Cons set_dropWhileD [of m ?g ?req] by simp
    ultimately show ?thesis using Cons by (auto simp: granted_def)
  qed
  with h show ?thesis by simp
qed

theorem requested_modes_checked_in_order_witness:
  "handle (example_env [(''/a/.acl'', Representation (Inr public_read_acl))])
     \<lparr>identifier = ResourceIdentifier ''/a/b/c'', credentials = Credentials None,
      permissions = [(Read, True), (Append, False), (Write, True), (Control, True)]\<rparr> []
   = Some ([Called_getAcl (ResourceIdentifier ''/a/b/c''),
            Called_getRepresentation (ResourceIdentifier ''/a/b/c.acl''),
            Called_getParentContainer (ResourceIdentifier ''/a/b/c''),
            Called_getAcl (ResourceIdentifier ''/a/b/''),
            Called_getRepresentation (ResourceIdentifier ''/a/b/.acl''),
            Called_getParentContainer (ResourceIdentifier ''/a/b/''),
            Called_getAcl (ResourceIdentifier ''/a/''),
            Called_getRepresentation (ResourceIdentifier ''/a/.acl''),
            Called_isAcl (ResourceIdentifier ''/a/b/c''),
            Called_checkPermission Read,
            Called_checkPermission Write],
           Inl UnauthorizedHttpError)
   \<and> handle (example_env [(''/a/.acl'', Representation (Inr public_read_acl))])
       \<lparr>identifier = ResourceIdentifier ''/a/b/c'', credentials = Credentials None,
        permissions = [(Read, False), (Append, False), (Write, False), (Control, False)]\<rparr> []
   = Some ([Called_getAcl (ResourceIdentifier ''/a/b/c''),
            Called_getRepresentation (ResourceIdentifier ''/a/b/c.acl''),
            Called_getParentContainer (ResourceIdentifier ''/a/b/c''),
            Called_getAcl (ResourceIdentifier ''/a/b/''),
            Called_getRepresentation (ResourceIdentifier ''/a/b/.acl''),
            Called_getParentContainer (ResourceIdentifier ''/a/b/''),
            Called_getAcl (ResourceIdentifier ''/a/''),
            Called_getRepresentation (ResourceIdentifier ''/a/.acl''),
            Called_isAcl (ResourceIdentifier ''/a/b/c'')],
           Inr ())"
proof -
  let ?env = "example_env [(''/a/.acl'', Representation (Inr public_read_acl))]"
  let ?input = "\<lparr>identifier = ResourceIdentifier ''/a/b/c'', credentials = Credentials None,
      permissions = [(Read, True), (Append, False), (Write, True), (Control, True)]\<rparr>"
  let ?none = "\<lparr>identifier = ResourceIdentifier ''/a/b/c'', credentials = Credentials None,
      permissions = [(Read, False), (Append, False), (Write, False), (Control, False)]\<rparr>"
  let ?log1 = "[Called_getAcl (ResourceIdentifier ''/a/b/c''),
            Called_getRepresentation (ResourceIdentifier ''/a/b/c.acl''),
            Called_getParentContainer (ResourceIdentifier ''/a/b/c''),
            Called_getAcl (ResourceIdentifier ''/a/b/''),
            Called_getRepresentation (ResourceIdentifier ''/a/b/.acl''),
            Called_getParentContainer (ResourceIdentifier ''/a/b/''),
            Called_getAcl (ResourceIdentifier ''/a/''),
            Called_getRepresentation (ResourceIdentifier ''/a/.acl'')]"
  have a: "isAcl ?env (identifier ?input) = Inr False"
    by code_simp
  have r: "getAclRecursive ?env (identifier ?input) False [] = Some (?log1, Inr public_read_acl)"
    by code_simp
  have e: "evaluatedModes (credentials ?input) public_read_acl (requestedModes (permissions ?input))
             = [Read, Write]"
    by code_simp
  have o: "(case dropWhile (granted (credentials ?input) public_read_acl)
                   (requestedModes (permissions ?input)) of
              [] \<Rightarrow> Inr ()
            | m # _ \<Rightarrow> checkPermission (credentials ?input) public_read_acl m)
           = Inl UnauthorizedHttpError"
    by code_simp
  from requested_modes_checked_in_order [OF a r]
  have "handle ?env ?input [] =
          Some (?log1 @ Called_isAcl (identifier ?input)
                  # map Called_checkPermission
                      (evaluatedModes (credentials ?input) public_read_acl
                         (requestedModes (permissions ?input))),
                case dropWhile (granted (credentials ?input) public_read_acl)
                       (requestedModes (permissions ?input)) of
                  [] \<Rightarrow> Inr ()
                | m # _ \<Rightarrow> checkPermission (credentials ?input) public_read_acl m)"
    by (rule conjunct1)
  then have 1: "handle ?env ?input [] =
          Some (?log1 @ [Called_isAcl (ResourceIdentifier ''/a/b/c''),
                         Called_checkPermission Read, Called_checkPermission Write],
                Inl UnauthorizedHttpError)"
    unfolding e o by simp
  have a': "isAcl ?env (identifier ?none) = Inr False"
    by code_simp
  have r': "getAclRecursive ?env (identifier ?none) False [] = Some (?log1, Inr public_read_acl)"
    by code_simp
  have e': "evaluatedModes (credentials ?none) public_read_acl (requestedModes (permissions ?none))
             = []"
    by code_simp
  have o': "(case dropWhile (granted (credentials ?none) public_read_acl)
                   (requestedModes (permissions ?none)) of
              [] \<Rightarrow> Inr ()
            | m # _ \<Rightarrow> checkPermission (credentials ?none) public_read_acl m)
           = Inr ()"
    by code_simp
  from requested_modes_checked_in_order [OF a' r']
  have "handle ?env ?none [] =
          Some (?log1 @ Called_isAcl (identifier ?none)
                  # map Called_checkPermission
                      (evaluatedModes (credentials ?none) public_read_acl
                         (requestedModes (permissions ?none))),
                case dropWhile (granted (credentials ?none) public_read_acl)
                       (requestedModes (permissions ?none)) of
                  [] \<Rightarrow> Inr ()
                | m # _ \<Rightarrow> checkPermission (credentials ?none) public_read_acl m)"
    by (rule conjunct1)
  then have 2: "handle ?env ?none [] =
          Some (?log1 @ [Called_isAcl (ResourceIdentifier ''/a/b/c'')], Inr ())"
    unfolding e' o' by simp
  from 1 2 show ?thesis by simp
qed

text \<open>
  Claim C10. \<open>handle\<close> performs the resolution once, and first. Its outcome is fixed
  by the run of \<open>getAclRecursive\<close> from the target, whose log holds resolution calls
  only: where that run does not settle, neither does the check; where it ends in an
  error, the check ends in that error with the same log, so that \<open>isAcl\<close> is never
  consulted, whatever the target and the requested permission set are; where it
  yields a store, one call of \<open>isAcl\<close> follows and then invocations of
  \<open>checkPermission\<close> only. In particular an error other than not-found raised at a
  probe the walk reaches is the outcome of the check.
\<close>

theorem resolution_once_before_isAcl:
  "(case getAclRecursive env (identifier input) False log of
      None \<Rightarrow> handle env input log = None
    | Some (log1, res) \<Rightarrow>
        (\<exists>evs. log1 = log @ evs \<and> list_all resolutionEvent evs)
      \<and> (case res of
            Inl e \<Rightarrow> handle env input log = Some (log1, Inl e)
          | Inr store \<Rightarrow>
              \<exists>checks r. handle env input log
                            = Some (log1 @ Called_isAcl (identifier input) # checks, r)
                        \<and> list_all checkEvent checks))
   \<and> (climbs env (identifier input) ancestors
      \<and> probe env (last (identifier input # ancestors)) = Inl e
      \<and> e \<noteq> NotFoundHttpError
    \<longrightarrow> handle env input log =
          Some (log @ climbLog env (identifier input) ancestors
                    @ probeLog env (last (identifier input # ancestors)), Inl e))"
proof (rule conjI)
  show "case getAclRecursive env (identifier input) False log of
          None \<Rightarrow> handle env input log = None
        | Some (log1, res) \<Rightarrow>
            (\<exists>evs. log1 = log @ evs \<and> list_all resolutionEvent evs)
          \<and> (case res of
                Inl e \<Rightarrow> handle env input log = Some (log1, Inl e)
              | Inr store \<Rightarrow>
                  \<exists>checks r. handle env input log
                                = Some (log1 @ Called_isAcl (identifier input) # checks, r)
                            \<and> list_all checkEvent checks)"
  proof (cases "getAclRecursive env (identifier input) False log")
    case None
    then show ?thesis by (simp add: handle_unsettled)
  next
    case (Some y)
    obtain log1 res where y: "y = (log1, res)" by (cases y)
    from getAclRecursive_log [OF Some] y
    have evs: "\<exists>evs. log1 = log @ evs \<and> list_all resolutionEvent evs"
      by (auto simp: list_all_iff)
    from Some y have run: "getAclRecursive env (identifier input) False log = Some (log1, res)"
      by simp
    have "case res of
            Inl e \<Rightarrow> handle env input log = Some (log1, Inl e)
          | Inr store \<Rightarrow>
              \<exists>checks r. handle env input log
                            = Some (log1 @ Called_isAcl (identifier input) # checks, r)
                        \<and> list_all checkEvent checks"
    proof (cases res)
      case (Inl e')
      with run have "getAclRecursive env (identifier input) False log = Some (log1, Inl e')"
        by simp
      from handle_resolution_error [OF this] Inl show ?thesis by simp
    next
      case (Inr store)
      with run have "getAclRecursive env (identifier input) False log = Some (log1, Inr store)"
        by simp
      from handle_after_store [OF this] Inr show ?thesis by simp
    qed
    with evs run show ?thesis by simp
  qed
next
  let ?at = "last (identifier input # ancestors)"
  show "climbs env (identifier input) ancestors \<and> probe env ?at = Inl e
          \<and> e \<noteq> NotFoundHttpError
        \<longrightarrow> handle env input log =
              Some (log @ climbLog env (identifier input) ancestors @ probeLog env ?at, Inl e)"
  proof
    assume a: "climbs env (identifier input) ancestors \<and> probe env ?at = Inl e
               \<and> e \<noteq> NotFoundHttpError"
    then have c: "climbs env (identifier input) ancestors"
      and p: "probe env ?at = Inl e" and ne: "e \<noteq> NotFoundHttpError"
      by simp_all
    have "getAclRecursive env (identifier input) False log =
            getAclRecursive env ?at (False \<or> ancestors \<noteq> [])
              (log @ climbLog env (identifier input) ancestors)"
      by (rule getAclRecursive_climbs [OF c])
    also have "\<dots> = Some ((log @ climbLog env (identifier input) ancestors) @ probeLog env ?at,
                            Inl e)"
      by (rule getAclRecursive_error [OF p ne])
    finally have res: "getAclRecursive env (identifier input) False log =
            Some (log @ climbLog env (identifier input) ancestors @ probeLog env ?at, Inl e)"
      by simp
    show "handle env input log =
            Some (log @ climbLog env (identifier input) ancestors @ probeLog env ?at, Inl e)"
      by (rule handle_resolution_error [OF res])
  qed
qed

theorem resolution_once_before_isAcl_witness:
  "isAcl failing_env (ResourceIdentifier ''/a/b/c.acl'') = Inr True
   \<and> requestedModes [(Read, False)] = []
   \<and> handle failing_env
       \<lparr>identifier = ResourceIdentifier ''/a/b/c.acl'', credentials = Credentials None,
        permissions = [(Read, False)]\<rparr> []
     = Some ([Called_getAcl (ResourceIdentifier ''/a/b/c.acl''),
              Called_getRepresentation (ResourceIdentifier ''/a/b/c.acl.acl''),
              Called_getParentContainer (ResourceIdentifier ''/a/b/c.acl''),
              Called_getAcl (ResourceIdentifier ''/a/b/''),
              Called_getRepresentation (ResourceIdentifier ''/a/b/.acl'')],
             Inl (OtherError ''storage unavailable''))
   \<and> handle (example_env [(''/a/.acl'', Representation (Inl (OtherError ''stream broken'')))])
       \<lparr>identifier = ResourceIdentifier ''/a/b.acl'', credentials = Credentials None,
        permissions = [(Read, False)]\<rparr> []
     = Some ([Called_getAcl (ResourceIdentifier ''/a/b.acl''),
              Called_getRepresentation (ResourceIdentifier ''/a/b.acl.acl''),
              Called_getParentContainer (ResourceIdentifier ''/a/b.acl''),
              Called_getAcl (ResourceIdentifier ''/a/''),
              Called_getRepresentation (ResourceIdentifier ''/a/.acl'')],
             Inl (OtherError ''stream broken''))"
proof -
  let ?input = "\<lparr>identifier = ResourceIdentifier ''/a/b/c.acl'', credentials = Credentials None,
                  permissions = [(Read, False)]\<rparr>"
  let ?ancestors = "[ResourceIdentifier ''/a/b/'']"
  let ?log' = "[Called_getAcl (ResourceIdentifier ''/a/b/c.acl''),
            Called_getRepresentation (ResourceIdentifier ''/a/b/c.acl.acl''),
            Called_getParentContainer (ResourceIdentifier ''/a/b/c.acl''),
            Called_getAcl (ResourceIdentifier ''/a/b/''),
            Called_getRepresentation (ResourceIdentifier ''/a/b/.acl'')]"
  let ?env2 = "example_env [(''/a/.acl'', Representation (Inl (OtherError ''stream broken'')))]"
  let ?input2 = "\<lparr>identifier = ResourceIdentifier ''/a/b.acl'', credentials = Credentials None,
                   permissions = [(Read, False)]\<rparr>"
  let ?log2 = "[Called_getAcl (ResourceIdentifier ''/a/b.acl''),
              Called_getRepresentation (ResourceIdentifier ''/a/b.acl.acl''),
              Called_getParentContainer (ResourceIdentifier ''/a/b.acl''),
              Called_getAcl (ResourceIdentifier ''/a/''),
              Called_getRepresentation (ResourceIdentifier ''/a/.acl'')]"
  have a: "isAcl failing_env (ResourceIdentifier ''/a/b/c.acl'') = Inr True"
    by code_simp
  have n: "requestedModes [(Read, False)] = []"
    by code_simp
  have c: "climbs failing_env (identifier ?input) ?ancestors"
    by code_simp
  have p: "probe failing_env (last (identifier ?input # ?ancestors))
             = Inl (OtherError ''storage unavailable'')"
    by code_simp
  have ne: "OtherError ''storage unavailable'' \<noteq> NotFoundHttpError"
    by simp
  have l: "[] @ climbLog failing_env (identifier ?input) ?ancestors
              @ probeLog failing_env (last (identifier ?input # ?ancestors)) = ?log'"
    by code_simp
  from resolution_once_before_isAcl
         [of failing_env ?input "[]" ?ancestors "OtherError ''storage unavailable''"] c p ne
  have "handle failing_env ?input [] =
          Some ([] @ climbLog failing_env (identifier ?input) ?ancestors
                   @ probeLog failing_env (last (identifier ?input # ?ancestors)),
                Inl (OtherError ''storage unavailable''))"
    by blast
  then have 1: "handle failing_env ?input [] = Some (?log', Inl (OtherError ''storage unavailable''))"
    unfolding l .
  have g: "getAclRecursive ?env2 (identifier ?input2) False []
             = Some (?log2, Inl (OtherError ''stream broken''))"
    by code_simp
  from resolution_once_before_isAcl [of ?env2 ?input2 "[]"]
  have "case getAclRecursive ?env2 (identifier ?input2) False [] of
          None \<Rightarrow> handle ?env2 ?input2 [] = None
        | Some (log1, res) \<Rightarrow>
            (\<exists>evs. log1 = [] @ evs \<and> list_all resolutionEvent evs)
          \<and> (case res of
                Inl e \<Rightarrow> handle ?env2 ?input2 [] = Some (log1, Inl e)
              | Inr store \<Rightarrow>
                  \<exists>checks r. handle ?env2 ?input2 []
                                = Some (log1 @ Called_isAcl (identifier ?input2) # checks, r)
                            \<and> list_all checkEvent checks)"
    by (rule conjunct1)
  then have 2: "handle ?env2 ?input2 [] = Some (?log2, Inl (OtherError ''stream broken''))"
    unfolding g by simp
  from a n 1 2 show ?thesis by blast
qed

end
